theory Spec2Isabelle
  imports Main "HOL-Library.Sublist"
begin

section \<open>Data model\<close>

text \<open>
  A todo as the components read it: \<open>todo?.id\<close>, \<open>todo?.body\<close>, \<open>todo?.status\<close>.
  The identifier is opaque to the client (type \<open>'i\<close>). The source reads every
  field through optional chaining, so an entry of the fetched list may be \<open>undefined\<close>
  (an entry is a \<open>'i todo option\<close>) and a status may be missing (\<open>string option\<close>).
\<close>

record 'i todo =
  id_todo :: 'i
  body :: string
  status :: "string option"

text \<open>\<open>todo?.status\<close> and \<open>todo?.id\<close>: \<open>undefined\<close> when the entry itself is.\<close>

definition opt_status :: "'i todo option \<Rightarrow> string option" where
  "opt_status todo = (case todo of None \<Rightarrow> None | Some t \<Rightarrow> status t)"

definition opt_id :: "'i todo option \<Rightarrow> 'i option" where
  "opt_id todo = (case todo of None \<Rightarrow> None | Some t \<Rightarrow> Some (id_todo t))"

text \<open>
  The requests the two components hand to the gateway:
  \<open>api.todo.getAll.useQuery({statuses})\<close>, \<open>apiContext.todo.getAll.refetch()\<close>,
  \<open>createTodo({body})\<close>, \<open>updateTodoStatus({todoId, status})\<close>, \<open>deleteTodo({id})\<close>.
\<close>

datatype 'i request =
    TodoGetAll "string list"
  | TodoGetAllRefetch
  | TodoCreate string
  | TodoStatusUpdate "'i option" string
  | TodoDelete 'i

fun is_mutation :: "'i request \<Rightarrow> bool" where
  "is_mutation (TodoGetAll ss) = False"
| "is_mutation TodoGetAllRefetch = False"
| "is_mutation (TodoCreate b) = True"
| "is_mutation (TodoStatusUpdate i st) = True"
| "is_mutation (TodoDelete i) = True"

fun is_create :: "'i request \<Rightarrow> bool" where
  "is_create (TodoCreate b) = True"
| "is_create r = False"

text \<open>What the client observes when a request settles.\<close>

datatype 'i response = Failed | Succeeded "'i todo option list"

datatype error = TypeError

text \<open>
  The state of the page: the \<open>useState\<close> cells of the two components
  (\<open>todoBody\<close>, \<open>filterStatus\<close>), what the hooks report (\<open>data\<close> of the \<open>getAll\<close>
  query, \<open>isLoading\<close> of the create mutation, renamed \<open>isCreatingTodo\<close>), and the
  environment: the create mutation the hook currently follows, the list fetch the query
  currently follows, how often \<open>apiContext.todo.getAll.refetch()\<close> has been called,
  every request issued so far (a request's number is its position in \<open>sent\<close>), the
  requests in flight, and the gateway's collection (opaque, type \<open>'g\<close>).
\<close>

record ('i, 'g) app =
  todoBody :: string
  filterStatus :: string
  data :: "'i todo option list option"
  isCreatingTodo :: bool
  currentCreate :: "nat option"
  currentList :: "nat option"
  refetchCalls :: nat
  sent :: "'i request list"
  outstanding :: "(nat \<times> 'i request) list"
  gateway :: 'g

section \<open>TodoList.tsx\<close>

text \<open>
  \<open>Array.prototype.filter\<close>: visit the elements in index order and append to the
  result those for which the callback holds.
\<close>

fun filter_loop :: "('a \<Rightarrow> bool) \<Rightarrow> 'a list \<Rightarrow> 'a list \<Rightarrow> 'a list" where
  "filter_loop callbackfn [] acc = acc"
| "filter_loop callbackfn (kValue # rest) acc =
     filter_loop callbackfn rest (if callbackfn kValue then acc @ [kValue] else acc)"

definition array_filter :: "('a \<Rightarrow> bool) \<Rightarrow> 'a list \<Rightarrow> 'a list" where
  "array_filter callbackfn xs = filter_loop callbackfn xs []"

text \<open>\<open>const { data: todos = [] } = api.todo.getAll.useQuery(...)\<close>\<close>

definition todos :: "('i, 'g) app \<Rightarrow> 'i todo option list" where
  "todos s = (case data s of None \<Rightarrow> [] | Some ts \<Rightarrow> ts)"

text \<open>
  \<open>todos.filter((todo) => { if (filterStatus === 'all') return true;
  return todo?.status === filterStatus })\<close>.
  Strict equality of a possibly undefined status with a string holds only for a
  present, equal string.
\<close>

definition filteredTodos :: "'i todo option list \<Rightarrow> string \<Rightarrow> 'i todo option list" where
  "filteredTodos ts f =
     array_filter (\<lambda>todo. if f = ''all'' then True else opt_status todo = Some f) ts"

definition rendered :: "('i, 'g) app \<Rightarrow> 'i todo option list" where
  "rendered s = filteredTodos (todos s) (filterStatus s)"

definition handleTabChange :: "string \<Rightarrow> ('i, 'g) app \<Rightarrow> ('i, 'g) app" where
  "handleTabChange v s = s\<lparr>filterStatus := v\<rparr>"

text \<open>Handing a request to the transport: it is logged and in flight.\<close>

definition enqueue :: "'i request \<Rightarrow> ('i, 'g) app \<Rightarrow> ('i, 'g) app" where
  "enqueue r s =
     s\<lparr>sent := sent s @ [r], outstanding := outstanding s @ [(length (sent s), r)]\<rparr>"

text \<open>The query is fetching: the list request it follows is still in flight.\<close>

definition fetching :: "('i, 'g) app \<Rightarrow> bool" where
  "fetching s =
     list_ex (\<lambda>p. \<not> is_mutation (snd p) \<and> currentList s = Some (fst p)) (outstanding s)"

text \<open>
  \<open>apiContext.todo.getAll.refetch()\<close>. While the query is fetching and has never had
  data, the call joins the fetch in flight and sends nothing. Otherwise a new list
  request goes out and the query follows it; a fetch that was in flight is cancelled
  silently, that is, its answer will be dropped.
\<close>

definition refetch :: "('i, 'g) app \<Rightarrow> ('i, 'g) app" where
  "refetch s =
     (if fetching s \<and> data s = None
      then s\<lparr>refetchCalls := Suc (refetchCalls s)\<rparr>
      else (enqueue TodoGetAllRefetch s)
             \<lparr>refetchCalls := Suc (refetchCalls s), currentList := Some (length (sent s))\<rparr>)"

definition updateTodoStatus :: "'i option \<Rightarrow> string \<Rightarrow> ('i, 'g) app \<Rightarrow> ('i, 'g) app" where
  "updateTodoStatus todoId st s = enqueue (TodoStatusUpdate todoId st) s"

definition deleteTodo :: "'i \<Rightarrow> ('i, 'g) app \<Rightarrow> ('i, 'g) app" where
  "deleteTodo i s = enqueue (TodoDelete i) s"

text \<open>\<open>const newStatus = currentStatus === 'pending' ? 'completed' : 'pending'\<close>\<close>

definition newStatus :: "string option \<Rightarrow> string" where
  "newStatus currentStatus =
     (if currentStatus = Some ''pending'' then ''completed'' else ''pending'')"

definition handleClickToUpdateStatus ::
  "'i option \<Rightarrow> string option \<Rightarrow> ('i, 'g) app \<Rightarrow> ('i, 'g) app" where
  "handleClickToUpdateStatus i currentStatus s =
     updateTodoStatus i (newStatus currentStatus) s"

text \<open>
  \<open>if (confirm('Delete this todo?')) { deleteTodo({id: id}) }\<close>; the user's answer
  to the blocking prompt is the argument \<open>answer\<close>.
\<close>

definition handleDeleteItem :: "'i \<Rightarrow> bool \<Rightarrow> ('i, 'g) app \<Rightarrow> ('i, 'g) app" where
  "handleDeleteItem i answer s = (if answer then deleteTodo i s else s)"

text \<open>
  The click handlers of a row. A handler yields whether it called
  \<open>e.stopPropagation()\<close> and the state it leaves, or the error it threw.
  The row's \<open>li\<close> toggles; the delete icon stops propagation and then reads
  \<open>todo.id\<close> without optional chaining, which throws on an undefined entry.
\<close>

definition li_onClick ::
  "'i todo option \<Rightarrow> ('i, 'g) app \<Rightarrow> bool \<times> (error + ('i, 'g) app)" where
  "li_onClick todo s =
     (False, Inr (handleClickToUpdateStatus (opt_id todo) (opt_status todo) s))"

definition XMarkIcon_onClick ::
  "'i todo option \<Rightarrow> bool \<Rightarrow> ('i, 'g) app \<Rightarrow> bool \<times> (error + ('i, 'g) app)" where
  "XMarkIcon_onClick todo answer s =
     (True, case todo of None \<Rightarrow> Inl TypeError
                      | Some t \<Rightarrow> Inr (handleDeleteItem (id_todo t) answer s))"

text \<open>
  Bubbling of a click: the handlers on the path from the target to the root run in
  that order, until one has stopped propagation. A handler that throws leaves the
  state as it found it.
\<close>

fun dispatch :: "('s \<Rightarrow> bool \<times> (error + 's)) list \<Rightarrow> 's \<Rightarrow> 's" where
  "dispatch [] s = s"
| "dispatch (h # hs) s =
     (case h s of (stopped, r) \<Rightarrow>
        let s' = (case r of Inl e \<Rightarrow> s | Inr t \<Rightarrow> t)
        in if stopped then s' else dispatch hs s')"

text \<open>
  A click inside the \<open>n\<close>-th rendered row away from the delete icon reaches the
  \<open>li\<close> only; a click on the delete icon (inside the \<open>li\<close>) has the icon's handler
  first and the \<open>li\<close>'s after it.
\<close>

definition clickRow :: "nat \<Rightarrow> ('i, 'g) app \<Rightarrow> ('i, 'g) app" where
  "clickRow n s =
     (if n < length (rendered s) then dispatch [li_onClick (rendered s ! n)] s else s)"

definition clickDelete :: "nat \<Rightarrow> bool \<Rightarrow> ('i, 'g) app \<Rightarrow> ('i, 'g) app" where
  "clickDelete n answer s =
     (if n < length (rendered s)
      then dispatch [XMarkIcon_onClick (rendered s ! n) answer, li_onClick (rendered s ! n)] s
      else s)"

section \<open>CreateTodoForm.tsx\<close>

definition setTodoBody :: "string \<Rightarrow> ('i, 'g) app \<Rightarrow> ('i, 'g) app" where
  "setTodoBody v s = s\<lparr>todoBody := v\<rparr>"

text \<open>
  \<open>createTodo\<close> is the \<open>mutate\<close> of the create mutation hook: the request goes out,
  the hook follows this newest mutation and reports it as loading.
\<close>

definition createTodo :: "string \<Rightarrow> ('i, 'g) app \<Rightarrow> ('i, 'g) app" where
  "createTodo b s =
     (enqueue (TodoCreate b) s)\<lparr>isCreatingTodo := True, currentCreate := Some (length (sent s))\<rparr>"

text \<open>
  \<open>if (e.key === 'Enter') { e.preventDefault(); createTodo({body: todoBody}); setTodoBody('') }\<close>.
  \<open>preventDefault\<close> keeps the browser from submitting the form; it touches nothing of
  the state kept here.
\<close>

definition handleKeyDown :: "string \<Rightarrow> ('i, 'g) app \<Rightarrow> ('i, 'g) app" where
  "handleKeyDown key s =
     (if key = ''Enter'' then setTodoBody '''' (createTodo (todoBody s) s) else s)"

text \<open>The Add button: \<open>disabled={isCreatingTodo}\<close> and its \<open>onClick\<close>.\<close>

definition Add_disabled :: "('i, 'g) app \<Rightarrow> bool" where
  "Add_disabled s = isCreatingTodo s"

definition Add_onClick :: "('i, 'g) app \<Rightarrow> ('i, 'g) app" where
  "Add_onClick s = setTodoBody '''' (createTodo (todoBody s) s)"

text \<open>A click on a disabled button fires no handler.\<close>

definition clickAdd :: "('i, 'g) app \<Rightarrow> ('i, 'g) app" where
  "clickAdd s = (if Add_disabled s then s else Add_onClick s)"

section \<open>The page as an event-driven machine\<close>

text \<open>
  The \<open>onSuccess\<close> callbacks of the three mutations, each
  \<open>apiContext.todo.getAll.refetch()\<close>.
\<close>

definition createTodo_onSuccess :: "('i, 'g) app \<Rightarrow> ('i, 'g) app" where
  "createTodo_onSuccess s = refetch s"

definition updateTodoStatus_onSuccess :: "('i, 'g) app \<Rightarrow> ('i, 'g) app" where
  "updateTodoStatus_onSuccess s = refetch s"

definition deleteTodo_onSuccess :: "('i, 'g) app \<Rightarrow> ('i, 'g) app" where
  "deleteTodo_onSuccess s = refetch s"

text \<open>
  The client observing the response to request number \<open>n\<close>. The answer to the list
  request the query follows replaces the cached collection if it succeeded and leaves
  it if it failed; the answer to any other list request is dropped. A mutation hook
  runs its \<open>onSuccess\<close> on success only. The create hook stops reporting loading when
  the mutation it follows settles.
\<close>

fun observe :: "nat \<Rightarrow> 'i request \<Rightarrow> 'i response \<Rightarrow> ('i, 'g) app \<Rightarrow> ('i, 'g) app" where
  "observe n (TodoGetAll ss) resp s =
     (if currentList s = Some n
      then (case resp of Succeeded ts \<Rightarrow> s\<lparr>data := Some ts\<rparr> | Failed \<Rightarrow> s)
      else s)"
| "observe n TodoGetAllRefetch resp s =
     (if currentList s = Some n
      then (case resp of Succeeded ts \<Rightarrow> s\<lparr>data := Some ts\<rparr> | Failed \<Rightarrow> s)
      else s)"
| "observe n (TodoCreate b) resp s =
     (let s' = (if currentCreate s = Some n then s\<lparr>isCreatingTodo := False\<rparr> else s)
      in case resp of Succeeded ts \<Rightarrow> createTodo_onSuccess s' | Failed \<Rightarrow> s')"
| "observe n (TodoStatusUpdate i st) resp s =
     (case resp of Succeeded ts \<Rightarrow> updateTodoStatus_onSuccess s | Failed \<Rightarrow> s)"
| "observe n (TodoDelete i) resp s =
     (case resp of Succeeded ts \<Rightarrow> deleteTodo_onSuccess s | Failed \<Rightarrow> s)"

text \<open>
  The \<open>k\<close>-th request in flight settles: the gateway \<open>gw\<close> (a parameter: the store is
  not part of the client) handles it, giving its new collection and the response, and
  the client observes the response.
\<close>

definition settle ::
  "('i request \<Rightarrow> 'g \<Rightarrow> 'g \<times> 'i response) \<Rightarrow> nat \<Rightarrow> ('i, 'g) app \<Rightarrow> ('i, 'g) app" where
  "settle gw k s =
     (if k < length (outstanding s)
      then (case outstanding s ! k of (n, r) \<Rightarrow>
              (case gw r (gateway s) of (g', resp) \<Rightarrow>
                 observe n r resp
                   (s\<lparr>outstanding := take k (outstanding s) @ drop (Suc k) (outstanding s),
                      gateway := g'\<rparr>)))
      else s)"

datatype event =
    Change string
  | KeyDown string
  | ClickAdd
  | TabChange string
  | ClickRow nat
  | ClickDelete nat bool
  | Settle nat

fun step ::
  "('i request \<Rightarrow> 'g \<Rightarrow> 'g \<times> 'i response) \<Rightarrow> event \<Rightarrow> ('i, 'g) app \<Rightarrow> ('i, 'g) app" where
  "step gw (Change v) s = setTodoBody v s"
| "step gw (KeyDown key) s = handleKeyDown key s"
| "step gw ClickAdd s = clickAdd s"
| "step gw (TabChange v) s = handleTabChange v s"
| "step gw (ClickRow n) s = clickRow n s"
| "step gw (ClickDelete n answer) s = clickDelete n answer s"
| "step gw (Settle k) s = settle gw k s"

fun run ::
  "('i request \<Rightarrow> 'g \<Rightarrow> 'g \<times> 'i response) \<Rightarrow> event list \<Rightarrow> ('i, 'g) app \<Rightarrow> ('i, 'g) app" where
  "run gw [] s = s"
| "run gw (e # es) s = run gw es (step gw e s)"

text \<open>
  The page after mounting: \<open>useState('')\<close>, \<open>useState('all')\<close>, no data yet, and the
  query's first fetch, \<open>{statuses: ['completed', 'pending']}\<close>, in flight and
  followed by the query.
\<close>

definition mount :: "'g \<Rightarrow> ('i, 'g) app" where
  "mount g =
     \<lparr>todoBody = '''', filterStatus = ''all'', data = None, isCreatingTodo = False,
      currentCreate = None, currentList = Some 0, refetchCalls = 0,
      sent = [TodoGetAll [''completed'', ''pending'']],
      outstanding = [(0, TodoGetAll [''completed'', ''pending''])], gateway = g\<rparr>"

text \<open>The requests an event makes the client issue.\<close>

definition issued ::
  "('i request \<Rightarrow> 'g \<Rightarrow> 'g \<times> 'i response) \<Rightarrow> event \<Rightarrow> ('i, 'g) app \<Rightarrow> 'i request list" where
  "issued gw e s = drop (length (sent s)) (sent (step gw e s))"

definition creates_in_flight :: "('i, 'g) app \<Rightarrow> (nat \<times> 'i request) list" where
  "creates_in_flight s = filter (\<lambda>p. is_create (snd p)) (outstanding s)"

text \<open>
  The create request the hook follows (the one issued last) is still in flight.
\<close>

definition latest_create_in_flight :: "('i, 'g) app \<Rightarrow> bool" where
  "latest_create_in_flight s =
     (currentCreate s \<in> set (map (\<lambda>p. Some (fst p)) (outstanding s)))"

text \<open>
  An event that delivers fetched data: a list request (the query or a refetch)
  settles and succeeds.
\<close>

definition list_success ::
  "('i request \<Rightarrow> 'g \<Rightarrow> 'g \<times> 'i response) \<Rightarrow> event \<Rightarrow> ('i, 'g) app \<Rightarrow> bool" where
  "list_success gw e s =
     (case e of
        Settle k \<Rightarrow>
          k < length (outstanding s) \<and> \<not> is_mutation (snd (outstanding s ! k)) \<and>
          snd (gw (snd (outstanding s ! k)) (gateway s)) \<noteq> Failed
      | _ \<Rightarrow> False)"

text \<open>No event of the history delivers fetched data.\<close>

fun no_list_data ::
  "('i request \<Rightarrow> 'g \<Rightarrow> 'g \<times> 'i response) \<Rightarrow> event list \<Rightarrow> ('i, 'g) app \<Rightarrow> bool" where
  "no_list_data gw [] s = True"
| "no_list_data gw (e # es) s = (\<not> list_success gw e s \<and> no_list_data gw es (step gw e s))"

text \<open>
  Two gateways for the examples, over a store with nothing to observe: one accepts
  every request and lists nothing, one fails every request.
\<close>

definition accepting :: "nat request \<Rightarrow> unit \<Rightarrow> unit \<times> nat response" where
  "accepting r g = (g, Succeeded [])"

definition failing :: "nat request \<Rightarrow> unit \<Rightarrow> unit \<times> nat response" where
  "failing r g = (g, Failed)"

text \<open>
  Invariants of the machine. \<open>wf_app\<close>: request numbers are those of issued requests
  and are distinct, the hook follows a create, and it reports loading exactly while
  that create is in flight. \<open>click_only\<close>: every create in flight is the one the
  hook follows.
\<close>

definition wf_app :: "('i, 'g) app \<Rightarrow> bool" where
  "wf_app s \<longleftrightarrow>
     (\<forall>p \<in> set (outstanding s). fst p < length (sent s)) \<and>
     distinct (map fst (outstanding s)) \<and>
     (\<forall>n. currentCreate s = Some n \<longrightarrow> n < length (sent s)) \<and>
     (\<forall>p \<in> set (outstanding s). currentCreate s = Some (fst p) \<longrightarrow> is_create (snd p)) \<and>
     isCreatingTodo s = latest_create_in_flight s"

definition click_only :: "('i, 'g) app \<Rightarrow> bool" where
  "click_only s \<longleftrightarrow>
     (\<forall>p \<in> set (outstanding s). is_create (snd p) \<longrightarrow> currentCreate s = Some (fst p))"

section \<open>Auxiliary facts\<close>

lemmas ui_defs = enqueue_def refetch_def updateTodoStatus_def deleteTodo_def
  handleClickToUpdateStatus_def handleDeleteItem_def li_onClick_def XMarkIcon_onClick_def
  clickRow_def clickDelete_def setTodoBody_def createTodo_def handleKeyDown_def
  Add_disabled_def Add_onClick_def clickAdd_def handleTabChange_def
  createTodo_onSuccess_def updateTodoStatus_onSuccess_def deleteTodo_onSuccess_def

subsection \<open>The filter loop\<close>

lemma filter_loop_eq: "filter_loop p xs acc = acc @ filter p xs"
  by (induction xs arbitrary: acc) simp_all

lemma array_filter_eq: "array_filter p xs = filter p xs"
  by (simp add: array_filter_def filter_loop_eq)

lemma rendered_no_data: "data s = None \<Longrightarrow> rendered s = []"
  by (simp add: rendered_def todos_def filteredTodos_def array_filter_eq)

subsection \<open>What a response can change\<close>

lemma todoBody_observe: "todoBody (observe n r resp s) = todoBody s"
  by (cases "(n, r, resp, s)" rule: observe.cases)
     (simp_all add: ui_defs Let_def split: response.splits)

lemma todoBody_settle: "todoBody (settle gw k s) = todoBody s"
  by (simp add: settle_def todoBody_observe split: prod.splits)

lemma todoBody_run_settle: "todoBody (run gw (map Settle ks) s) = todoBody s"
  by (induction ks arbitrary: s) (simp_all add: todoBody_settle)

lemma data_observe_mutation: "is_mutation r \<Longrightarrow> data (observe n r resp s) = data s"
  by (cases r) (simp_all add: ui_defs Let_def split: response.splits)

lemma data_observe_Failed: "data (observe n r Failed s) = data s"
  by (cases r) (simp_all add: Let_def)

lemma data_step_ui: "\<forall>k. e \<noteq> Settle k \<Longrightarrow> data (step gw e s) = data s"
  by (cases e) (auto simp: ui_defs split: option.splits)

lemma data_settle:
  fixes gw :: "'i request \<Rightarrow> 'g \<Rightarrow> 'g \<times> 'i response" and s :: "('i, 'g) app"
  assumes "\<not> list_success gw (Settle k) s"
  shows "data (settle gw k s) = data s"
proof (cases "k < length (outstanding s)")
  case False
  then show ?thesis by (simp add: settle_def)
next
  case True
  obtain n r where nr: "outstanding s ! k = (n, r)" by (cases "outstanding s ! k")
  obtain g' resp where g: "gw r (gateway s) = (g', resp)" by (cases "gw r (gateway s)")
  have "data (observe n r resp t) = data t" for t :: "('i, 'g) app"
  proof (cases "is_mutation r")
    case True
    then show ?thesis by (rule data_observe_mutation)
  next
    case False
    with assms \<open>k < length (outstanding s)\<close> nr g have "resp = Failed"
      by (simp add: list_success_def)
    then show ?thesis by (simp add: data_observe_Failed)
  qed
  with True nr g show ?thesis by (simp add: settle_def)
qed

lemma data_step: "\<not> list_success gw e s \<Longrightarrow> data (step gw e s) = data s"
  by (cases "\<exists>k. e = Settle k") (auto simp: data_settle data_step_ui)

lemma data_run: "no_list_data gw evs s \<Longrightarrow> data (run gw evs s) = data s"
  by (induction evs arbitrary: s) (simp_all add: data_step)

lemma fetching_cong:
  "outstanding s = outstanding t \<Longrightarrow> currentList s = currentList t \<Longrightarrow> fetching s = fetching t"
  by (simp add: fetching_def)

lemma fetching_isCreatingTodo [simp]: "fetching (s\<lparr>isCreatingTodo := v\<rparr>) = fetching s"
  by (simp add: fetching_def)














lemma row_click_toggles:
  "n < length (rendered s) \<Longrightarrow>
   issued gw (ClickRow n) s =
     [TodoStatusUpdate (opt_id (rendered s ! n)) (newStatus (opt_status (rendered s ! n)))]"
  by (simp add: issued_def ui_defs)

subsection \<open>Invariants of the machine\<close>

lemma latest_alt:
  "latest_create_in_flight s \<longleftrightarrow> (\<exists>n. currentCreate s = Some n \<and> n \<in> fst ` set (outstanding s))"
  by (auto simp: latest_create_in_flight_def image_iff)

lemma wf_enqueue: "wf_app s \<Longrightarrow> \<not> is_create r \<Longrightarrow> wf_app (enqueue r s)"
  by (fastforce simp: wf_app_def enqueue_def latest_alt split: option.splits)

lemma wf_createTodo: "wf_app s \<Longrightarrow> wf_app (createTodo b s)"
  by (fastforce simp: wf_app_def createTodo_def enqueue_def latest_alt split: option.splits)

lemma wf_app_cong:
  "outstanding s = outstanding t \<Longrightarrow> sent s = sent t \<Longrightarrow> currentCreate s = currentCreate t \<Longrightarrow>
   isCreatingTodo s = isCreatingTodo t \<Longrightarrow> wf_app s = wf_app t"
  by (simp add: wf_app_def latest_alt)

lemma wf_todoBody [simp]: "wf_app (s\<lparr>todoBody := v\<rparr>) = wf_app s"
  by (simp add: wf_app_def latest_alt split: option.splits)

lemma wf_filterStatus [simp]: "wf_app (s\<lparr>filterStatus := v\<rparr>) = wf_app s"
  by (simp add: wf_app_def latest_alt split: option.splits)

lemma wf_data [simp]: "wf_app (s\<lparr>data := v\<rparr>) = wf_app s"
  by (simp add: wf_app_def latest_alt split: option.splits)

lemma wf_gateway [simp]: "wf_app (s\<lparr>gateway := v\<rparr>) = wf_app s"
  by (simp add: wf_app_def latest_alt split: option.splits)

lemma wf_refetch: "wf_app s \<Longrightarrow> wf_app (refetch s)"
proof -
  assume wf: "wf_app s"
  have a: "wf_app (s\<lparr>refetchCalls := Suc (refetchCalls s)\<rparr>) = wf_app s"
    by (rule wf_app_cong) simp_all
  have b: "wf_app ((enqueue TodoGetAllRefetch s)
             \<lparr>refetchCalls := Suc (refetchCalls s), currentList := Some (length (sent s))\<rparr>) =
           wf_app (enqueue TodoGetAllRefetch s)"
    by (rule wf_app_cong) simp_all
  from wf a b show ?thesis by (simp add: refetch_def wf_enqueue)
qed

lemma wf_step_ui: "wf_app s \<Longrightarrow> \<forall>k. e \<noteq> Settle k \<Longrightarrow> wf_app (step gw e s)"
proof (cases e)
  case (KeyDown key)
  assume "wf_app s"
  then show ?thesis using wf_createTodo [of s "todoBody s"]
    by (simp add: KeyDown handleKeyDown_def setTodoBody_def)
next
  case ClickAdd
  assume "wf_app s"
  then show ?thesis using wf_createTodo [of s "todoBody s"]
    by (simp add: ClickAdd clickAdd_def Add_onClick_def setTodoBody_def)
next
  case (ClickRow n)
  assume "wf_app s"
  then show ?thesis
    by (simp add: ClickRow clickRow_def li_onClick_def handleClickToUpdateStatus_def
        updateTodoStatus_def wf_enqueue)
next
  case (ClickDelete n a)
  assume "wf_app s"
  then show ?thesis
    by (simp add: ClickDelete clickDelete_def XMarkIcon_onClick_def handleDeleteItem_def
        deleteTodo_def wf_enqueue split: option.splits)
qed (simp_all add: setTodoBody_def handleTabChange_def)

text \<open>Removing the request that settles.\<close>

lemma remove_nth_set:
  "set (take k xs @ drop (Suc k) xs) \<subseteq> set xs"
  by (auto dest: in_set_takeD in_set_dropD)

lemma remove_nth_distinct:
  assumes "distinct (map fst xs)" "k < length xs"
  shows "distinct (map fst (take k xs @ drop (Suc k) xs)) \<and>
         fst (xs ! k) \<notin> set (map fst (take k xs @ drop (Suc k) xs))"
proof -
  from assms(2) have "xs = take k xs @ xs ! k # drop (Suc k) xs"
    by (rule id_take_nth_drop)
  then have "distinct (map fst (take k xs @ xs ! k # drop (Suc k) xs))"
    using assms(1) by simp
  then show ?thesis by auto
qed

lemma wf_remove:
  assumes "wf_app s" "k < length (outstanding s)" "outstanding s ! k = (n, r)"
  defines "s' \<equiv> s\<lparr>outstanding := take k (outstanding s) @ drop (Suc k) (outstanding s)\<rparr>"
  shows "if currentCreate s = Some n then wf_app (s'\<lparr>isCreatingTodo := False\<rparr>) \<and> is_create r
         else wf_app s'"
proof -
  let ?xs = "outstanding s" and ?ys = "take k (outstanding s) @ drop (Suc k) (outstanding s)"
  have sub: "set ?ys \<subseteq> set ?xs" by (rule remove_nth_set)
  have d: "distinct (map fst ?ys)" and nin: "n \<notin> set (map fst ?ys)"
    using remove_nth_distinct [of ?xs k] assms(1-3) by (simp_all add: wf_app_def)
  have mem: "(n, r) \<in> set ?xs" using assms(2,3) by (metis nth_mem)
  have xs_eq: "?xs = take k ?xs @ (n, r) # drop (Suc k) ?xs"
    using id_take_nth_drop [OF assms(2)] assms(3) by simp
  have ids: "set (map fst ?xs) = insert n (set (map fst ?ys))"
    by (subst xs_eq) auto
  show ?thesis
  proof (cases "currentCreate s = Some n")
    case True
    have "is_create r" using assms(1) mem True by (fastforce simp: wf_app_def)
    moreover have "wf_app (s'\<lparr>isCreatingTodo := False\<rparr>)"
      using assms(1) sub d nin True
      by (auto simp: wf_app_def s'_def latest_alt)
    ultimately show ?thesis using True by simp
  next
    case False
    have "latest_create_in_flight s' = latest_create_in_flight s"
      using False ids by (auto simp: latest_alt s'_def split: option.splits)
    then have "wf_app s'"
      using assms(1) sub d by (auto simp: wf_app_def s'_def)
    then show ?thesis using False by simp
  qed
qed

lemma wf_observe:
  assumes "if currentCreate s = Some n then wf_app (s\<lparr>isCreatingTodo := False\<rparr>) \<and> is_create r
           else wf_app s"
  shows "wf_app (observe n r resp s)"
proof (cases r)
  case (TodoCreate b)
  then show ?thesis using assms
    by (auto simp: Let_def createTodo_onSuccess_def wf_refetch split: response.splits)
next
  case (TodoGetAll ss)
  then show ?thesis using assms by (cases resp) (auto split: if_splits)
next
  case TodoGetAllRefetch
  then show ?thesis using assms by (cases resp) (auto split: if_splits)
next
  case (TodoStatusUpdate i st)
  then show ?thesis using assms
    by (auto simp: updateTodoStatus_onSuccess_def wf_refetch split: response.splits if_splits)
next
  case (TodoDelete i)
  then show ?thesis using assms
    by (auto simp: deleteTodo_onSuccess_def wf_refetch split: response.splits if_splits)
qed

lemma wf_settle: "wf_app s \<Longrightarrow> wf_app (settle gw k s)"
proof (cases "k < length (outstanding s)")
  case False
  assume "wf_app s"
  with False show ?thesis by (simp add: settle_def)
next
  case True
  assume wf: "wf_app s"
  obtain n r where nr: "outstanding s ! k = (n, r)" by (cases "outstanding s ! k")
  obtain g' resp where g: "gw r (gateway s) = (g', resp)" by (cases "gw r (gateway s)")
  let ?s = "s\<lparr>outstanding := take k (outstanding s) @ drop (Suc k) (outstanding s), gateway := g'\<rparr>"
  let ?t = "s\<lparr>outstanding := take k (outstanding s) @ drop (Suc k) (outstanding s)\<rparr>"
  have "wf_app ?s = wf_app ?t"
    and "wf_app (?s\<lparr>isCreatingTodo := False\<rparr>) = wf_app (?t\<lparr>isCreatingTodo := False\<rparr>)"
    by (rule wf_app_cong; simp)+
  then have "wf_app (observe n r resp ?s)"
    using wf_remove [OF wf True nr] by (intro wf_observe) (simp split: if_splits)
  with True nr g show ?thesis by (simp add: settle_def)
qed

lemma wf_step: "wf_app s \<Longrightarrow> wf_app (step gw e s)"
  by (cases "\<exists>k. e = Settle k") (auto simp: wf_settle wf_step_ui)

lemma wf_mount: "wf_app (mount g)"
  by (simp add: wf_app_def mount_def latest_alt)

lemma wf_run: "wf_app s \<Longrightarrow> wf_app (run gw evs s)"
  by (induction evs arbitrary: s) (simp_all add: wf_step)


lemma click_only_cong:
  "outstanding s = outstanding t \<Longrightarrow> currentCreate s = currentCreate t \<Longrightarrow>
   click_only s = click_only t"
  by (simp add: click_only_def)

lemma click_only_enqueue: "click_only s \<Longrightarrow> \<not> is_create r \<Longrightarrow> click_only (enqueue r s)"
  by (auto simp: click_only_def enqueue_def)

lemma no_create_when_enabled:
  assumes "wf_app s" "click_only s" "\<not> isCreatingTodo s"
  shows "\<forall>p \<in> set (outstanding s). \<not> is_create (snd p)"
proof
  fix p assume p: "p \<in> set (outstanding s)"
  show "\<not> is_create (snd p)"
  proof
    assume "is_create (snd p)"
    with assms(2) p have "currentCreate s = Some (fst p)" by (simp add: click_only_def)
    with p have "latest_create_in_flight s" by (auto simp: latest_alt)
    with assms(1,3) show False by (simp add: wf_app_def)
  qed
qed

lemma click_only_clickAdd:
  assumes "wf_app s" "click_only s"
  shows "click_only (clickAdd s)"
proof (cases "isCreatingTodo s")
  case True
  with assms(2) show ?thesis by (simp add: clickAdd_def Add_disabled_def)
next
  case False
  from no_create_when_enabled [OF assms False]
  have "click_only (createTodo (todoBody s) s)"
    by (auto simp: click_only_def createTodo_def enqueue_def)
  then have "click_only (setTodoBody [] (createTodo (todoBody s) s))"
    by (simp add: click_only_def setTodoBody_def)
  with False show ?thesis by (simp add: clickAdd_def Add_disabled_def Add_onClick_def)
qed

lemma click_only_refetch: "click_only s \<Longrightarrow> click_only (refetch s)"
proof -
  assume c: "click_only s"
  have a: "click_only (s\<lparr>refetchCalls := Suc (refetchCalls s)\<rparr>) = click_only s"
    by (rule click_only_cong) simp_all
  have b: "click_only ((enqueue TodoGetAllRefetch s)
             \<lparr>refetchCalls := Suc (refetchCalls s), currentList := Some (length (sent s))\<rparr>) =
           click_only (enqueue TodoGetAllRefetch s)"
    by (rule click_only_cong) simp_all
  from c a b show ?thesis by (simp add: refetch_def click_only_enqueue)
qed

lemma click_only_observe: "click_only s \<Longrightarrow> click_only (observe n r resp s)"
proof (cases r)
  case (TodoCreate b)
  assume c: "click_only s"
  let ?s = "if currentCreate s = Some n then s\<lparr>isCreatingTodo := False\<rparr> else s"
  have "click_only ?s" using c by (auto simp: click_only_def)
  then have "click_only (case resp of Succeeded ts \<Rightarrow> createTodo_onSuccess ?s | Failed \<Rightarrow> ?s)"
    by (cases resp) (simp_all add: createTodo_onSuccess_def click_only_refetch)
  then show ?thesis by (simp add: TodoCreate Let_def)
next
  case (TodoGetAll ss)
  assume "click_only s"
  then show ?thesis by (cases resp) (simp_all add: TodoGetAll click_only_def)
next
  case TodoGetAllRefetch
  assume "click_only s"
  then show ?thesis by (cases resp) (simp_all add: TodoGetAllRefetch click_only_def)
next
  case (TodoStatusUpdate i st)
  assume "click_only s"
  then show ?thesis
    by (cases resp)
       (simp_all add: TodoStatusUpdate updateTodoStatus_onSuccess_def click_only_refetch)
next
  case (TodoDelete i)
  assume "click_only s"
  then show ?thesis
    by (cases resp)
       (simp_all add: TodoDelete deleteTodo_onSuccess_def click_only_refetch)
qed

lemma click_only_settle: "click_only s \<Longrightarrow> click_only (settle gw k s)"
proof (cases "k < length (outstanding s)")
  case False
  assume "click_only s"
  with False show ?thesis by (simp add: settle_def)
next
  case True
  assume c: "click_only s"
  obtain n r where nr: "outstanding s ! k = (n, r)" by (cases "outstanding s ! k")
  obtain g' resp where g: "gw r (gateway s) = (g', resp)" by (cases "gw r (gateway s)")
  let ?s = "s\<lparr>outstanding := take k (outstanding s) @ drop (Suc k) (outstanding s), gateway := g'\<rparr>"
  have "click_only ?s"
    using c remove_nth_set [of k "outstanding s"] by (auto simp: click_only_def)
  then have "click_only (observe n r resp ?s)" by (rule click_only_observe)
  with True nr g show ?thesis by (simp add: settle_def)
qed

lemma click_only_step:
  assumes "wf_app s" "click_only s" "e \<noteq> KeyDown ''Enter''"
  shows "click_only (step gw e s)"
proof (cases e)
  case (Change v)
  with assms(2) show ?thesis by (simp add: setTodoBody_def click_only_def)
next
  case (KeyDown key)
  with assms(2,3) show ?thesis by (simp add: handleKeyDown_def)
next
  case ClickAdd
  with assms(1,2) show ?thesis by (simp add: click_only_clickAdd)
next
  case (TabChange v)
  with assms(2) show ?thesis by (simp add: handleTabChange_def click_only_def)
next
  case (ClickRow n)
  with assms(2) show ?thesis
    by (simp add: clickRow_def li_onClick_def handleClickToUpdateStatus_def
        updateTodoStatus_def click_only_enqueue)
next
  case (ClickDelete n a)
  with assms(2) show ?thesis
    by (simp add: clickDelete_def XMarkIcon_onClick_def handleDeleteItem_def
        deleteTodo_def click_only_enqueue split: option.splits)
next
  case (Settle k)
  with assms(2) show ?thesis by (simp add: click_only_settle)
qed

lemma click_only_run:
  "wf_app s \<Longrightarrow> click_only s \<Longrightarrow> KeyDown ''Enter'' \<notin> set evs \<Longrightarrow> click_only (run gw evs s)"
proof (induction evs arbitrary: s)
  case Nil
  then show ?case by simp
next
  case (Cons e evs)
  from Cons.prems have "wf_app (step gw e s)" and "click_only (step gw e s)"
    by (auto simp: wf_step intro: click_only_step)
  with Cons show ?case by simp
qed

lemma click_only_mount: "click_only (mount g)"
  by (simp add: click_only_def mount_def)

lemma distinct_all_same:
  assumes "distinct xs" "\<forall>x \<in> set xs. x = a"
  shows "length xs \<le> Suc 0"
proof (cases xs)
  case Nil
  then show ?thesis by simp
next
  case (Cons x ys)
  with assms have "ys = []" by (cases ys) auto
  with Cons show ?thesis by simp
qed

lemma at_most_one_create:
  assumes "wf_app s" "click_only s"
  shows "length (creates_in_flight s) \<le> 1"
proof (cases "currentCreate s")
  case None
  with assms(2) have "creates_in_flight s = []"
    by (auto simp: creates_in_flight_def click_only_def filter_empty_conv)
  then show ?thesis by simp
next
  case (Some n)
  have "distinct (map fst (creates_in_flight s))"
    using assms(1) by (simp add: wf_app_def creates_in_flight_def distinct_map_filter)
  moreover have "\<forall>x \<in> set (map fst (creates_in_flight s)). x = n"
    using assms(2) Some by (auto simp: creates_in_flight_def click_only_def)
  ultimately have "length (map fst (creates_in_flight s)) \<le> Suc 0"
    by (rule distinct_all_same)
  then show ?thesis by simp
qed

lemma clickAdd_disabled: "Add_disabled s \<Longrightarrow> clickAdd s = s"
  by (simp add: clickAdd_def)

section \<open>The claims\<close>

lemmas example_defs = ui_defs mount_def settle_def issued_def accepting_def failing_def
  rendered_def todos_def filteredTodos_def array_filter_def creates_in_flight_def
  latest_create_in_flight_def list_success_def opt_status_def opt_id_def newStatus_def
  fetching_def Let_def

text \<open>
  C1. For every list of todos and every filter \<open>f\<close>: with \<open>f = 'all'\<close> the filtered view
  is the whole list, unchanged; with any other \<open>f\<close> (in particular \<open>'pending'\<close> and
  \<open>'completed'\<close>) it is exactly the todos whose status equals \<open>f\<close>, in their original
  relative order, so a todo whose status is undefined is never in it. In both cases the
  view is a subsequence of the list.
\<close>

theorem filteredTodos_spec:
  "filteredTodos ts ''all'' = ts \<and>
   (f \<noteq> ''all'' \<longrightarrow>
      filteredTodos ts f = filter (\<lambda>todo. opt_status todo = Some f) ts \<and>
      (\<forall>todo \<in> set (filteredTodos ts f). opt_status todo \<noteq> None)) \<and>
   subseq (filteredTodos ts f) ts"
  by (auto simp: filteredTodos_def array_filter_eq)

theorem filteredTodos_spec_witness:
  "''pending'' \<noteq> ''all'' \<and>
   filteredTodos
     [Some \<lparr>id_todo = 1::nat, body = ''A'', status = Some ''pending''\<rparr>,
      Some \<lparr>id_todo = 2, body = ''B'', status = Some ''completed''\<rparr>,
      Some \<lparr>id_todo = 3, body = ''C'', status = None\<rparr>,
      None,
      Some \<lparr>id_todo = 4, body = ''D'', status = Some ''pending''\<rparr>] ''pending'' =
     [Some \<lparr>id_todo = 1, body = ''A'', status = Some ''pending''\<rparr>,
      Some \<lparr>id_todo = 4, body = ''D'', status = Some ''pending''\<rparr>]"
  using filteredTodos_spec [of
     "[Some \<lparr>id_todo = 1::nat, body = ''A'', status = Some ''pending''\<rparr>,
      Some \<lparr>id_todo = 2, body = ''B'', status = Some ''completed''\<rparr>,
      Some \<lparr>id_todo = 3, body = ''C'', status = None\<rparr>,
      None,
      Some \<lparr>id_todo = 4, body = ''D'', status = Some ''pending''\<rparr>]" "''pending''"]
  by (simp add: opt_status_def)

text \<open>
  C2. For a status \<open>cs\<close> that is \<open>'pending'\<close> or \<open>'completed'\<close>: toggling a todo whose
  status is \<open>cs\<close> sends the opposite status, and toggling a todo whose status is that
  opposite sends \<open>cs\<close> again.
\<close>

theorem toggle_round_trip:
  "cs = ''pending'' \<or> cs = ''completed'' \<Longrightarrow>
   sent (handleClickToUpdateStatus i (Some cs) s) =
     sent s @ [TodoStatusUpdate i (newStatus (Some cs))] \<and>
   sent (handleClickToUpdateStatus i (Some (newStatus (Some cs))) s') =
     sent s' @ [TodoStatusUpdate i cs]"
  by (auto simp: ui_defs newStatus_def)

theorem toggle_round_trip_witness:
  "(''completed'' = ''pending'' \<or> ''completed'' = ''completed'') \<and>
   sent (handleClickToUpdateStatus (Some (7::nat)) (Some ''completed'') (mount ())) =
     [TodoGetAll [''completed'', ''pending''], TodoStatusUpdate (Some 7) ''pending''] \<and>
   sent (handleClickToUpdateStatus (Some (7::nat)) (Some ''pending'') (mount ())) =
     [TodoGetAll [''completed'', ''pending''], TodoStatusUpdate (Some 7) ''completed'']"
  using toggle_round_trip [of "''completed''" "Some (7::nat)" "mount ()" "mount ()"]
  by (simp add: newStatus_def mount_def)

text \<open>
  C3. Declining the confirmation prompt: \<open>handleDeleteItem\<close> returns the state it was
  given, and a click on the delete icon of any row leaves the whole page as it was:
  the cached list, the requests issued and in flight (no delete request is added), and
  the gateway's collection.
\<close>

theorem decline_delete:
  "handleDeleteItem i False s = s \<and> step gw (ClickDelete n False) s = s \<and>
   issued gw (ClickDelete n False) s = []"
  by (auto simp: issued_def ui_defs split: option.splits)

theorem decline_delete_witness:
  "step accepting (ClickDelete 0 False)
     ((mount ())\<lparr>data := Some [Some \<lparr>id_todo = 1, body = ''A'', status = Some ''pending''\<rparr>]\<rparr>) =
   (mount ())\<lparr>data := Some [Some \<lparr>id_todo = 1, body = ''A'', status = Some ''pending''\<rparr>]\<rparr>"
  using decline_delete [of 1
     "(mount ())\<lparr>data := Some [Some \<lparr>id_todo = 1, body = ''A'', status = Some ''pending''\<rparr>]\<rparr>"
     accepting 0]
  by simp

text \<open>
  C4, as the claim states it, fails while a create is in flight: the Add button is
  disabled, so a click on it issues nothing, whereas Enter in the input issues the
  create request with the text.
\<close>

theorem enter_differs_from_click_counterexample:
  "todoBody (run accepting [Change ''Buy milk'', ClickAdd, Change ''Walk dog''] (mount ())) =
     ''Walk dog'' \<and>
   issued accepting (KeyDown ''Enter'')
     (run accepting [Change ''Buy milk'', ClickAdd, Change ''Walk dog''] (mount ())) =
     [TodoCreate ''Walk dog''] \<and>
   issued accepting ClickAdd
     (run accepting [Change ''Buy milk'', ClickAdd, Change ''Walk dog''] (mount ())) = []"
  by (simp add: example_defs)

text \<open>
  C4, amended. For every text in the input: the Enter branch of \<open>handleKeyDown\<close> and the
  Add button's \<open>onClick\<close> are the same state transformer, and each issues exactly the
  create request carrying that text. While the button is enabled, so that a click
  reaches its handler, the click and the Enter key issue that same request and leave
  the page in the same state. While the button is disabled, Enter still issues the
  request and a click issues nothing and changes nothing.
\<close>

theorem enter_same_as_click:
  "handleKeyDown ''Enter'' s = Add_onClick s \<and>
   issued gw (KeyDown ''Enter'') s = [TodoCreate (todoBody s)] \<and>
   sent (Add_onClick s) = sent s @ [TodoCreate (todoBody s)] \<and>
   (\<not> Add_disabled s \<longrightarrow>
      issued gw ClickAdd s = [TodoCreate (todoBody s)] \<and>
      step gw ClickAdd s = step gw (KeyDown ''Enter'') s) \<and>
   (Add_disabled s \<longrightarrow> issued gw ClickAdd s = [] \<and> step gw ClickAdd s = s)"
  by (simp add: issued_def ui_defs)

theorem enter_same_as_click_witness:
  "\<not> Add_disabled (step accepting (Change ''Walk dog'') (mount ())) \<and>
   issued accepting (KeyDown ''Enter'') (step accepting (Change ''Walk dog'') (mount ())) =
     [TodoCreate ''Walk dog''] \<and>
   issued accepting ClickAdd (step accepting (Change ''Walk dog'') (mount ())) =
     [TodoCreate ''Walk dog''] \<and>
   Add_disabled (run accepting [Change ''Buy milk'', ClickAdd] (mount ())) \<and>
   step accepting ClickAdd (run accepting [Change ''Buy milk'', ClickAdd] (mount ())) =
     run accepting [Change ''Buy milk'', ClickAdd] (mount ())"
  using enter_same_as_click [of "step accepting (Change ''Walk dog'') (mount ())" accepting]
    enter_same_as_click [of "run accepting [Change ''Buy milk'', ClickAdd] (mount ())" accepting]
  by (simp add: Add_disabled_def setTodoBody_def mount_def clickAdd_def Add_onClick_def
      createTodo_def enqueue_def)

text \<open>
  C5. For every text in the input: either way of submitting issues the create request
  with that text and leaves the input empty, and the input is still empty after any
  responses have arrived since, whatever the gateway answered.
\<close>

theorem submit_clears_input:
  "sent (handleKeyDown ''Enter'' s) = sent s @ [TodoCreate (todoBody s)] \<and>
   sent (Add_onClick s) = sent s @ [TodoCreate (todoBody s)] \<and>
   todoBody (handleKeyDown ''Enter'' s) = '''' \<and>
   todoBody (Add_onClick s) = '''' \<and>
   todoBody (run gw (map Settle ks) (handleKeyDown ''Enter'' s)) = '''' \<and>
   todoBody (run gw (map Settle ks) (Add_onClick s)) = ''''"
  by (simp add: todoBody_run_settle) (simp add: ui_defs)

theorem submit_clears_input_witness:
  "todoBody (run failing (map Settle [1])
      (handleKeyDown ''Enter'' (step failing (Change ''Buy milk'') (mount ())))) = '''' \<and>
   todoBody (run accepting (map Settle [1])
      (Add_onClick (step accepting (Change ''Buy milk'') (mount ())))) = ''''"
  using submit_clears_input [of "step failing (Change ''Buy milk'') (mount ())" failing "[1]"]
    submit_clears_input [of "step accepting (Change ''Buy milk'') (mount ())" accepting "[1]"]
  by simp

text \<open>
  C6. Whenever the query holds no data the collection to render is the empty list; and
  from the mounted page, after any history of events in which no list request has
  succeeded (it failed, or has not been answered), the query still holds no data and
  the rendered list is empty.
\<close>

theorem no_data_renders_empty:
  fixes gw :: "'i request \<Rightarrow> 'g \<Rightarrow> 'g \<times> 'i response" and s :: "('i, 'g) app"
  shows "(data s = None \<longrightarrow> todos s = [] \<and> rendered s = []) \<and>
   (no_list_data gw evs (mount g) \<longrightarrow>
      data (run gw evs (mount g)) = None \<and> rendered (run gw evs (mount g)) = [])"
proof -
  have "data (run gw evs (mount g)) = None" if "no_list_data gw evs (mount g)"
    using data_run [OF that] by (simp add: mount_def)
  then show ?thesis by (auto simp: rendered_no_data todos_def)
qed

theorem no_data_renders_empty_witness:
  "data (mount () :: (nat, unit) app) = None \<and>
   rendered (mount () :: (nat, unit) app) = [] \<and>
   no_list_data failing
      [Settle 0, Change ''Buy milk'', KeyDown ''Enter'', TabChange ''pending''] (mount ()) \<and>
   rendered (run failing
      [Settle 0, Change ''Buy milk'', KeyDown ''Enter'', TabChange ''pending''] (mount ())) = []"
  using no_data_renders_empty [of "mount ()" failing
      "[Settle 0, Change ''Buy milk'', KeyDown ''Enter'', TabChange ''pending'']" "()"]
  by (simp add: example_defs)




text \<open>
  C8, as the claim states it, fails: the Enter key is not gated by the flag. After two
  creates issued with Enter, when the later one settles first the hook reports no
  create loading, so while the earlier create is still in flight the Add button is
  enabled and a click on it issues a further create.
\<close>

theorem add_enabled_counterexample:
  "creates_in_flight
     (run accepting
        [Change ''Buy milk'', KeyDown ''Enter'', Change ''Walk dog'', KeyDown ''Enter'', Settle 2]
        (mount ())) = [(1, TodoCreate ''Buy milk'')] \<and>
   \<not> Add_disabled
     (run accepting
        [Change ''Buy milk'', KeyDown ''Enter'', Change ''Walk dog'', KeyDown ''Enter'', Settle 2]
        (mount ())) \<and>
   issued accepting ClickAdd
     (run accepting
        [Change ''Buy milk'', KeyDown ''Enter'', Change ''Walk dog'', KeyDown ''Enter'', Settle 2]
        (mount ())) = [TodoCreate '''']"
  by (simp add: example_defs)

text \<open>
  C8, amended. After any history of events from the mounted page: the Add button is
  disabled exactly while the create request issued last is in flight, and a click on it
  then changes nothing and issues nothing. If no create was issued with the Enter key,
  at most one create is in flight at any time, and while one is, the button is disabled:
  no second create can be issued by clicking until the first has settled.
\<close>

theorem add_disabled_while_creating:
  fixes gw :: "'i request \<Rightarrow> 'g \<Rightarrow> 'g \<times> 'i response"
  assumes "s = run gw evs (mount g)"
  shows "(Add_disabled s \<longleftrightarrow> latest_create_in_flight s) \<and>
         (latest_create_in_flight s \<longrightarrow> step gw ClickAdd s = s \<and> issued gw ClickAdd s = []) \<and>
         (KeyDown ''Enter'' \<notin> set evs \<longrightarrow>
            length (creates_in_flight s) \<le> 1 \<and>
            (creates_in_flight s \<noteq> [] \<longrightarrow>
               Add_disabled s \<and> step gw ClickAdd s = s \<and> issued gw ClickAdd s = []))"
proof -
  have wf: "wf_app s" unfolding assms by (rule wf_run [OF wf_mount])
  then have a: "Add_disabled s \<longleftrightarrow> latest_create_in_flight s"
    by (simp add: wf_app_def Add_disabled_def)
  have b: "step gw ClickAdd s = s \<and> issued gw ClickAdd s = []" if "Add_disabled s"
    using that by (simp add: issued_def clickAdd_disabled)
  have c: "length (creates_in_flight s) \<le> 1 \<and> (creates_in_flight s \<noteq> [] \<longrightarrow> Add_disabled s)"
    if "KeyDown ''Enter'' \<notin> set evs"
  proof -
    have co: "click_only s"
      unfolding assms using that by (intro click_only_run wf_mount click_only_mount)
    have "latest_create_in_flight s" if "creates_in_flight s \<noteq> []"
    proof -
      from that obtain p where "p \<in> set (outstanding s)" "is_create (snd p)"
        by (auto simp: creates_in_flight_def filter_empty_conv)
      with co show ?thesis by (auto simp: click_only_def latest_alt)
    qed
    with a at_most_one_create [OF wf co] show ?thesis by simp
  qed
  from a b c show ?thesis by blast
qed

theorem add_disabled_while_creating_witness:
  "KeyDown ''Enter'' \<notin> set [Change ''Buy milk'', ClickAdd, Change ''Walk dog'', ClickAdd] \<and>
   latest_create_in_flight
     (run accepting [Change ''Buy milk'', ClickAdd, Change ''Walk dog'', ClickAdd] (mount ())) \<and>
   creates_in_flight
     (run accepting [Change ''Buy milk'', ClickAdd, Change ''Walk dog'', ClickAdd] (mount ())) =
     [(1, TodoCreate ''Buy milk'')] \<and>
   Add_disabled
     (run accepting [Change ''Buy milk'', ClickAdd, Change ''Walk dog'', ClickAdd] (mount ())) \<and>
   issued accepting ClickAdd
     (run accepting [Change ''Buy milk'', ClickAdd, Change ''Walk dog'', ClickAdd] (mount ())) = []"
  using add_disabled_while_creating [of
      "run accepting [Change ''Buy milk'', ClickAdd, Change ''Walk dog'', ClickAdd] (mount ())"
      accepting "[Change ''Buy milk'', ClickAdd, Change ''Walk dog'', ClickAdd]" "()"]
  by (simp add: example_defs)

text \<open>
  C9. A click on the delete icon of any row, whatever the answer to the prompt, issues
  no update-status request: it issues nothing, or exactly one delete request.
\<close>

theorem delete_never_toggles:
  "(\<forall>i st. TodoStatusUpdate i st \<notin> set (issued gw (ClickDelete n answer) s)) \<and>
   (issued gw (ClickDelete n answer) s = [] \<or>
    (\<exists>i. issued gw (ClickDelete n answer) s = [TodoDelete i]))"
  by (auto simp: issued_def ui_defs split: option.splits)

theorem delete_never_toggles_witness:
  "issued accepting (ClickDelete 0 True)
     ((mount ())\<lparr>data := Some [Some \<lparr>id_todo = 1, body = ''A'', status = Some ''pending''\<rparr>]\<rparr>) =
     [TodoDelete 1] \<and>
   TodoStatusUpdate (Some 1) ''completed'' \<notin> set (issued accepting (ClickDelete 0 True)
     ((mount ())\<lparr>data := Some [Some \<lparr>id_todo = 1, body = ''A'', status = Some ''pending''\<rparr>]\<rparr>))"
  using delete_never_toggles [of accepting 0 True
     "(mount ())\<lparr>data := Some [Some \<lparr>id_todo = 1, body = ''A'', status = Some ''pending''\<rparr>]\<rparr>"]
  by (simp add: example_defs)

text \<open>
  C10. For every current status other than exactly \<open>'pending'\<close>, the status sent by a
  toggle is \<open>'pending'\<close>: so for \<open>'completed'\<close> and so for an undefined status, for which
  a request is sent all the same. Only \<open>'pending'\<close> yields \<open>'completed'\<close>.
\<close>

theorem toggle_not_pending:
  "(cs \<noteq> Some ''pending'' \<longrightarrow>
      newStatus cs = ''pending'' \<and>
      sent (handleClickToUpdateStatus i cs s) = sent s @ [TodoStatusUpdate i ''pending'']) \<and>
   sent (handleClickToUpdateStatus i None s) = sent s @ [TodoStatusUpdate i ''pending''] \<and>
   sent (handleClickToUpdateStatus i (Some ''completed'') s) =
     sent s @ [TodoStatusUpdate i ''pending''] \<and>
   (newStatus cs = ''completed'' \<longleftrightarrow> cs = Some ''pending'') \<and>
   sent (handleClickToUpdateStatus i (Some ''pending'') s) =
     sent s @ [TodoStatusUpdate i ''completed'']"
  by (simp add: ui_defs newStatus_def)

theorem toggle_not_pending_witness:
  "Some ''archived'' \<noteq> Some ''pending'' \<and>
   newStatus (Some ''archived'') = ''pending'' \<and>
   sent (handleClickToUpdateStatus (None :: nat option) (Some ''archived'') (mount ())) =
     [TodoGetAll [''completed'', ''pending''], TodoStatusUpdate None ''pending'']"
  using toggle_not_pending [of "Some ''archived''" "None :: nat option" "mount ()"]
  by (simp add: mount_def)

end
